theory Spec2Isabelle
  imports Main
begin

section \<open>Strings\<close>

text \<open>
  A Go string is a sequence of bytes; so is an Isabelle \<open>string\<close>. The functions of
  package \<open>strings\<close> that the crawler and the URL package call are written out here.
\<close>

definition byte :: "char \<Rightarrow> nat" where
  "byte c = of_char c"

definition HasPrefix :: "string \<Rightarrow> string \<Rightarrow> bool" where
  "HasPrefix s p = (length p \<le> length s \<and> take (length p) s = p)"

definition HasSuffix :: "string \<Rightarrow> string \<Rightarrow> bool" where
  "HasSuffix s suf = (length suf \<le> length s \<and> drop (length s - length suf) s = suf)"

text \<open>\<open>Index s sep\<close> is the position of the first occurrence of \<open>sep\<close>, \<open>None\<close> for Go's -1.\<close>

fun Index :: "string \<Rightarrow> string \<Rightarrow> nat option" where
  "Index [] sep = (if sep = [] then Some 0 else None)"
| "Index (c # cs) sep =
     (if HasPrefix (c # cs) sep then Some 0 else map_option Suc (Index cs sep))"

definition LastIndex :: "string \<Rightarrow> string \<Rightarrow> nat option" where
  "LastIndex s sep =
     (case Index (rev s) (rev sep) of
        None \<Rightarrow> None
      | Some j \<Rightarrow> Some (length s - j - length sep))"

definition Contains :: "string \<Rightarrow> string \<Rightarrow> bool" where
  "Contains s sep = (Index s sep \<noteq> None)"

text \<open>\<open>Cut s sep\<close> returns the text before and after the first \<open>sep\<close>, and whether it was found.\<close>

definition Cut :: "string \<Rightarrow> string \<Rightarrow> string \<times> string \<times> bool" where
  "Cut s sep =
     (case Index s sep of
        None \<Rightarrow> (s, [], False)
      | Some i \<Rightarrow> (take i s, drop (i + length sep) s, True))"

text \<open>The only call of \<open>strings.Count\<close> counts a single byte.\<close>

definition CountByte :: "string \<Rightarrow> char \<Rightarrow> nat" where
  "CountByte s c = length (filter (\<lambda>x. x = c) s)"

definition isUpper :: "char \<Rightarrow> bool" where
  "isUpper c = (65 \<le> byte c \<and> byte c \<le> 90)"

definition isLower :: "char \<Rightarrow> bool" where
  "isLower c = (97 \<le> byte c \<and> byte c \<le> 122)"

definition isDigit :: "char \<Rightarrow> bool" where
  "isDigit c = (48 \<le> byte c \<and> byte c \<le> 57)"

text \<open>\<open>ToLower\<close> is only applied to a scheme, which holds ASCII bytes.\<close>

definition ToLower :: "string \<Rightarrow> string" where
  "ToLower s = map (\<lambda>c. if isUpper c then char_of (byte c + 32) else c) s"

definition TrimRight :: "string \<Rightarrow> string \<Rightarrow> string" where
  "TrimRight s cutset = rev (dropWhile (\<lambda>c. c \<in> set cutset) (rev s))"

section \<open>Package net/url\<close>

text \<open>
  The crawler resolves every reference through \<open>url.Parse\<close>, \<open>IsAbs\<close>, \<open>String\<close> and
  \<open>ResolveReference\<close> of Go's standard library, and reads the field \<open>Host\<close>. The
  package is not part of the repository; this section follows the library's source
  (\<open>net/url/url.go\<close>), function by function. \<open>parse\<close> is only ever called with
  \<open>viaRequest = false\<close>, and that argument is fixed here.
\<close>

datatype encoding =
  encodePath | encodePathSegment | encodeHost | encodeZone
  | encodeUserPassword | encodeQueryComponent | encodeFragment

record Userinfo =
  username :: string
  password :: string
  passwordSet :: bool

record URL =
  Scheme :: string
  Opaque :: string
  User :: "Userinfo option"
  Host :: string
  Path :: string
  RawPath :: string
  OmitHost :: bool
  ForceQuery :: bool
  RawQuery :: string
  Fragment :: string
  RawFragment :: string

definition newURL :: URL where
  "newURL = \<lparr>Scheme = [], Opaque = [], User = None, Host = [], Path = [], RawPath = [],
     OmitHost = False, ForceQuery = False, RawQuery = [], Fragment = [], RawFragment = []\<rparr>"

definition ishex :: "char \<Rightarrow> bool" where
  "ishex c = (isDigit c \<or> (97 \<le> byte c \<and> byte c \<le> 102) \<or> (65 \<le> byte c \<and> byte c \<le> 70))"

definition unhex :: "char \<Rightarrow> nat" where
  "unhex c =
     (if isDigit c then byte c - 48
      else if 97 \<le> byte c \<and> byte c \<le> 102 then byte c - 97 + 10
      else if 65 \<le> byte c \<and> byte c \<le> 70 then byte c - 65 + 10
      else 0)"

definition upperhex :: "nat \<Rightarrow> char" where
  "upperhex n = ''0123456789ABCDEF'' ! (n mod 16)"

definition shouldEscape :: "char \<Rightarrow> encoding \<Rightarrow> bool" where
  "shouldEscape c mode =
     (if isLower c \<or> isUpper c \<or> isDigit c then False
      else if (mode = encodeHost \<or> mode = encodeZone) \<and> c \<in> set ''!$&'()*+,;=:[]<>\"'' then False
      else if c \<in> set ''-_.~'' then False
      else if c \<in> set ''$&+,/:;=?@'' \<and> mode = encodePath then c = CHR ''?''
      else if c \<in> set ''$&+,/:;=?@'' \<and> mode = encodePathSegment then c \<in> set ''/;,?''
      else if c \<in> set ''$&+,/:;=?@'' \<and> mode = encodeUserPassword then c \<in> set ''@/?:''
      else if c \<in> set ''$&+,/:;=?@'' \<and> mode = encodeQueryComponent then True
      else if c \<in> set ''$&+,/:;=?@'' \<and> mode = encodeFragment then False
      else if mode = encodeFragment \<and> c \<in> set ''!()*'' then False
      else True)"

text \<open>
  \<open>unescape\<close> checks every escape and then decodes; \<open>None\<close> stands for either of its
  errors (\<open>EscapeError\<close>, \<open>InvalidHostError\<close>).
\<close>

fun unescape :: "string \<Rightarrow> encoding \<Rightarrow> string option" where
  "unescape [] mode = Some []"
| "unescape (c # s) mode =
     (if c = CHR ''%'' then
        (case s of
           h1 # h2 # rest \<Rightarrow>
             if \<not> ishex h1 \<or> \<not> ishex h2 then None
             else if mode = encodeHost \<and> unhex h1 < 8 \<and> [c, h1, h2] \<noteq> ''%25'' then None
             else if mode = encodeZone \<and> [c, h1, h2] \<noteq> ''%25''
                     \<and> unhex h1 * 16 + unhex h2 \<noteq> 32
                     \<and> shouldEscape (char_of (unhex h1 * 16 + unhex h2)) encodeHost then None
             else map_option ((#) (char_of (unhex h1 * 16 + unhex h2))) (unescape rest mode)
         | _ \<Rightarrow> None)
      else if c = CHR ''+'' then
        map_option ((#) (if mode = encodeQueryComponent then CHR '' '' else c)) (unescape s mode)
      else if (mode = encodeHost \<or> mode = encodeZone) \<and> byte c < 128 \<and> shouldEscape c encodeHost
        then None
      else map_option ((#) c) (unescape s mode))"

definition escape :: "string \<Rightarrow> encoding \<Rightarrow> string" where
  "escape s mode =
     concat (map (\<lambda>c. if c = CHR '' '' \<and> mode = encodeQueryComponent then ''+''
                      else if shouldEscape c mode
                        then [CHR ''%'', upperhex (byte c div 16), upperhex (byte c mod 16)]
                      else [c]) s)"

definition validEncoded :: "string \<Rightarrow> encoding \<Rightarrow> bool" where
  "validEncoded s mode =
     list_all (\<lambda>c. if c \<in> set ''!$&'()*+,;=:@'' then True
                   else if c \<in> set ''[]'' then True
                   else if c = CHR ''%'' then True
                   else \<not> shouldEscape c mode) s"

definition stringContainsCTLByte :: "string \<Rightarrow> bool" where
  "stringContainsCTLByte s = list_ex (\<lambda>b. byte b < 32 \<or> byte b = 127) s"

text \<open>
  \<open>getScheme\<close> returns the scheme and the rest, an empty scheme when the text does not
  start with one, and fails (\<open>None\<close>: missing protocol scheme) on a leading colon.
\<close>

fun getScheme_loop :: "string \<Rightarrow> nat \<Rightarrow> string \<Rightarrow> (string \<times> string) option" where
  "getScheme_loop rawURL i [] = Some ([], rawURL)"
| "getScheme_loop rawURL i (c # cs) =
     (if isLower c \<or> isUpper c then getScheme_loop rawURL (Suc i) cs
      else if isDigit c \<or> c = CHR ''+'' \<or> c = CHR ''-'' \<or> c = CHR ''.'' then
        (if i = 0 then Some ([], rawURL) else getScheme_loop rawURL (Suc i) cs)
      else if c = CHR '':'' then
        (if i = 0 then None else Some (take i rawURL, drop (Suc i) rawURL))
      else Some ([], rawURL))"

definition getScheme :: "string \<Rightarrow> (string \<times> string) option" where
  "getScheme rawURL = getScheme_loop rawURL 0 rawURL"

definition validOptionalPort :: "string \<Rightarrow> bool" where
  "validOptionalPort port =
     (case port of
        [] \<Rightarrow> True
      | c # ds \<Rightarrow> c = CHR '':'' \<and> list_all isDigit ds)"

definition validUserinfo :: "string \<Rightarrow> bool" where
  "validUserinfo s =
     list_all (\<lambda>r. isUpper r \<or> isLower r \<or> isDigit r \<or> r \<in> set ''-._:~!$&'()*+,;=%@'') s"

text \<open>
  Inside square brackets \<open>parseHost\<close> only admits what \<open>netip.ParseAddr\<close> reads as an
  IPv6 address, with or without a zone. Of that function the model keeps the verdict:
  \<open>parseIPv4Fields\<close> on the dotted tail of an address, the loop of \<open>parseIPv6\<close> over the
  groups of hex digits (\<open>i\<close> counts the bytes filled, \<open>ell\<close> tells whether a double
  colon was met), and the dispatch of \<open>ParseAddr\<close> on the first dot, colon or percent
  sign: a dot first is an IPv4 address, which \<open>parseHost\<close> refuses in brackets.
\<close>

fun parseIPv4Fields :: "nat \<Rightarrow> nat \<Rightarrow> nat \<Rightarrow> bool \<Rightarrow> string \<Rightarrow> bool" where
  "parseIPv4Fields val pos digLen afterDot [] = (3 \<le> pos)"
| "parseIPv4Fields val pos digLen afterDot (c # cs) =
     (if isDigit c then
        (if digLen = 1 \<and> val = 0 then False
         else if val * 10 + (byte c - 48) > 255 then False
         else parseIPv4Fields (val * 10 + (byte c - 48)) pos (Suc digLen) False cs)
      else if c = CHR ''.'' then
        (if afterDot \<or> cs = [] then False
         else if pos = 3 then False
         else parseIPv4Fields 0 (Suc pos) 0 True cs)
      else False)"

definition parseIPv6_end :: "nat \<Rightarrow> bool \<Rightarrow> string \<Rightarrow> bool" where
  "parseIPv6_end i ell s = (if s \<noteq> [] then False else if i < 16 then ell else \<not> ell)"

fun parseIPv6_loop :: "nat \<Rightarrow> nat \<Rightarrow> bool \<Rightarrow> string \<Rightarrow> bool" where
  "parseIPv6_loop 0 i ell s = parseIPv6_end i ell s"
| "parseIPv6_loop (Suc k) i ell s =
     (let off = length (takeWhile ishex s); rest = dropWhile ishex s in
      if off > 4 then False
      else if off = 0 then False
      else if rest \<noteq> [] \<and> hd rest = CHR ''.'' then
        (if \<not> ell \<and> i \<noteq> 12 then False
         else if i + 4 > 16 then False
         else if \<not> parseIPv4Fields 0 0 0 True s then False
         else parseIPv6_end (i + 4) ell [])
      else if rest = [] then parseIPv6_end (i + 2) ell []
      else if hd rest \<noteq> CHR '':'' then False
      else if length rest = 1 then False
      else if hd (tl rest) = CHR '':'' then
        (if ell then False
         else if tl (tl rest) = [] then parseIPv6_end (i + 2) True []
         else parseIPv6_loop k (i + 2) True (tl (tl rest)))
      else parseIPv6_loop k (i + 2) ell (tl rest))"

definition parseIPv6 :: "string \<Rightarrow> bool" where
  "parseIPv6 inp =
     (let s = takeWhile (\<lambda>c. c \<noteq> CHR ''%'') inp;
          zoned = (CHR ''%'' \<in> set inp);
          zone = drop 1 (dropWhile (\<lambda>c. c \<noteq> CHR ''%'') inp)
      in if zoned \<and> zone = [] then False
         else if HasPrefix s ''::'' then
           (if drop 2 s = [] then True else parseIPv6_loop 8 0 True (drop 2 s))
         else parseIPv6_loop 8 0 False s)"

definition ParseAddr_is6 :: "string \<Rightarrow> bool" where
  "ParseAddr_is6 s =
     (case dropWhile (\<lambda>c. c \<noteq> CHR ''.'' \<and> c \<noteq> CHR '':'' \<and> c \<noteq> CHR ''%'') s of
        [] \<Rightarrow> False
      | c # cs \<Rightarrow> c = CHR '':'' \<and> parseIPv6 s)"

definition isPostgres :: "string \<Rightarrow> bool" where
  "isPostgres scheme = (scheme = ''postgresql'' \<or> scheme = ''postgres'')"

text \<open>
  \<open>parseHost\<close>: a square bracket may only open the host; what it encloses is unescaped
  (the zone, from \<open>%25\<close> on, in its own mode) and must be an IPv6 address. Elsewhere the
  port is what follows the first colon, or the last colon for the schemes of PostgreSQL,
  whose hosts may be lists.
\<close>

definition parseHost :: "string \<Rightarrow> string \<Rightarrow> string option" where
  "parseHost scheme host =
     (case LastIndex host ''['' of
        Some openBracketIdx \<Rightarrow>
          if openBracketIdx \<noteq> 0 then None
          else
           (case LastIndex host '']'' of
              None \<Rightarrow> None
            | Some closeBracketIdx \<Rightarrow>
                if \<not> validOptionalPort (drop (Suc closeBracketIdx) host) then None
                else
                 (case unescape (drop (Suc closeBracketIdx) host) encodeHost of
                    None \<Rightarrow> None
                  | Some port \<Rightarrow>
                     (let hostname = drop 1 (take closeBracketIdx host) in
                      case (case Index hostname ''%25'' of
                              Some zoneIdx \<Rightarrow>
                                (case unescape (take zoneIdx hostname) encodeHost of
                                   None \<Rightarrow> None
                                 | Some hostPart \<Rightarrow>
                                     map_option ((@) hostPart)
                                       (unescape (drop zoneIdx hostname) encodeZone))
                            | None \<Rightarrow> unescape hostname encodeHost) of
                        None \<Rightarrow> None
                      | Some unescapedHostname \<Rightarrow>
                          if \<not> ParseAddr_is6 unescapedHostname then None
                          else Some (''['' @ unescapedHostname @ '']'' @ port))))
      | None \<Rightarrow>
         (case Index host '':'' of
            Some i \<Rightarrow>
              (case LastIndex host '':'' of
                 None \<Rightarrow> None
               | Some lastColon \<Rightarrow>
                   if \<not> validOptionalPort
                          (drop (if lastColon \<noteq> i \<and> isPostgres scheme then lastColon else i) host)
                   then None
                   else unescape host encodeHost)
          | None \<Rightarrow> unescape host encodeHost))"

definition parseAuthority :: "string \<Rightarrow> string \<Rightarrow> (Userinfo option \<times> string) option" where
  "parseAuthority scheme authority =
     (case LastIndex authority ''@'' of
        None \<Rightarrow> map_option (Pair None) (parseHost scheme authority)
      | Some i \<Rightarrow>
         (case parseHost scheme (drop (Suc i) authority) of
            None \<Rightarrow> None
          | Some host \<Rightarrow>
             let userinfo = take i authority in
             if \<not> validUserinfo userinfo then None
             else if \<not> Contains userinfo '':'' then
               (case unescape userinfo encodeUserPassword of
                  None \<Rightarrow> None
                | Some name \<Rightarrow>
                    Some (Some \<lparr>username = name, password = [], passwordSet = False\<rparr>, host))
             else
               (case Cut userinfo '':'' of (name0, pass0, _) \<Rightarrow>
                 (case unescape name0 encodeUserPassword of
                    None \<Rightarrow> None
                  | Some name \<Rightarrow>
                     (case unescape pass0 encodeUserPassword of
                        None \<Rightarrow> None
                      | Some pass \<Rightarrow>
                          Some (Some \<lparr>username = name, password = pass, passwordSet = True\<rparr>,
                                host))))))"

definition setPath :: "URL \<Rightarrow> string \<Rightarrow> URL option" where
  "setPath u p =
     (case unescape p encodePath of
        None \<Rightarrow> None
      | Some path \<Rightarrow>
          Some (u\<lparr>Path := path, RawPath := (if p = escape path encodePath then [] else p)\<rparr>))"

definition setFragment :: "URL \<Rightarrow> string \<Rightarrow> URL option" where
  "setFragment u f =
     (case unescape f encodeFragment of
        None \<Rightarrow> None
      | Some frag \<Rightarrow>
          Some (u\<lparr>Fragment := frag,
                  RawFragment := (if f = escape frag encodeFragment then [] else f)\<rparr>))"

definition parse_authority_path :: "URL \<Rightarrow> string \<Rightarrow> URL option" where
  "parse_authority_path url rest =
     (if (Scheme url \<noteq> [] \<or> \<not> HasPrefix rest ''///'') \<and> HasPrefix rest ''//'' then
        (let a = drop 2 rest;
             authority = (case Index a ''/'' of None \<Rightarrow> a | Some i \<Rightarrow> take i a);
             rest' = (case Index a ''/'' of None \<Rightarrow> [] | Some i \<Rightarrow> drop i a)
         in case parseAuthority (Scheme url) authority of
              None \<Rightarrow> None
            | Some (user, host) \<Rightarrow> setPath (url\<lparr>User := user, Host := host\<rparr>) rest')
      else if Scheme url \<noteq> [] \<and> HasPrefix rest ''/'' then
        setPath (url\<lparr>OmitHost := True\<rparr>) rest
      else setPath url rest)"

definition parse :: "string \<Rightarrow> URL option" where
  "parse rawURL =
     (if stringContainsCTLByte rawURL then None
      else if rawURL = ''*'' then Some (newURL\<lparr>Path := ''*''\<rparr>)
      else
        (case getScheme rawURL of
           None \<Rightarrow> None
         | Some (scheme, rest0) \<Rightarrow>
            let url0 = newURL\<lparr>Scheme := ToLower scheme\<rparr>;
                force = (HasSuffix rest0 ''?'' \<and> CountByte rest0 CHR ''?'' = 1);
                rest = (if force then butlast rest0 else fst (Cut rest0 ''?''));
                url = (if force then url0\<lparr>ForceQuery := True\<rparr>
                       else url0\<lparr>RawQuery := fst (snd (Cut rest0 ''?''))\<rparr>)
            in if \<not> HasPrefix rest ''/'' \<and> Scheme url \<noteq> [] then Some (url\<lparr>Opaque := rest\<rparr>)
               else if \<not> HasPrefix rest ''/'' \<and> Contains (fst (Cut rest ''/'')) '':'' then None
               else parse_authority_path url rest))"

definition Parse :: "string \<Rightarrow> URL option" where
  "Parse rawURL =
     (case Cut rawURL ''#'' of (u, frag, _) \<Rightarrow>
        (case parse u of
           None \<Rightarrow> None
         | Some url \<Rightarrow> if frag = [] then Some url else setFragment url frag))"

definition IsAbs :: "URL \<Rightarrow> bool" where
  "IsAbs u = (Scheme u \<noteq> [])"

definition EscapedPath :: "URL \<Rightarrow> string" where
  "EscapedPath u =
     (if RawPath u \<noteq> [] \<and> validEncoded (RawPath u) encodePath
         \<and> unescape (RawPath u) encodePath = Some (Path u) then RawPath u
      else if Path u = ''*'' then ''*''
      else escape (Path u) encodePath)"

definition EscapedFragment :: "URL \<Rightarrow> string" where
  "EscapedFragment u =
     (if RawFragment u \<noteq> [] \<and> validEncoded (RawFragment u) encodeFragment
         \<and> unescape (RawFragment u) encodeFragment = Some (Fragment u) then RawFragment u
      else escape (Fragment u) encodeFragment)"

definition Userinfo_String :: "Userinfo \<Rightarrow> string" where
  "Userinfo_String ui =
     escape (username ui) encodeUserPassword
     @ (if passwordSet ui then '':'' @ escape (password ui) encodeUserPassword else [])"

definition String :: "URL \<Rightarrow> string" where
  "String u =
     (let buf0 = (if Scheme u \<noteq> [] then Scheme u @ '':'' else []);
          buf1 =
            (if Opaque u \<noteq> [] then buf0 @ Opaque u
             else
               let buf2 =
                     (if Scheme u \<noteq> [] \<or> Host u \<noteq> [] \<or> User u \<noteq> None then
                        (if OmitHost u \<and> Host u = [] \<and> User u = None then buf0
                         else buf0
                           @ (if Host u \<noteq> [] \<or> Path u \<noteq> [] \<or> User u \<noteq> None then ''//'' else [])
                           @ (case User u of None \<Rightarrow> [] | Some ui \<Rightarrow> Userinfo_String ui @ ''@'')
                           @ (if Host u \<noteq> [] then escape (Host u) encodeHost else []))
                      else buf0);
                   path = EscapedPath u;
                   buf3 = (if path \<noteq> [] \<and> hd path \<noteq> CHR ''/'' \<and> Host u \<noteq> [] then buf2 @ ''/''
                           else buf2);
                   buf4 = (if buf3 = [] \<and> Contains (fst (Cut path ''/'')) '':'' then buf3 @ ''./''
                           else buf3)
               in buf4 @ path);
          buf5 = (if ForceQuery u \<or> RawQuery u \<noteq> [] then buf1 @ ''?'' @ RawQuery u else buf1)
      in if Fragment u \<noteq> [] then buf5 @ ''#'' @ EscapedFragment u else buf5)"

text \<open>
  \<open>resolvePath\<close> cuts the joined path at every slash and walks the segments, dropping
  \<open>.\<close> and climbing on \<open>..\<close>; \<open>segments\<close> lists what the repeated \<open>strings.Cut\<close> yields.
\<close>

fun segments_acc :: "string \<Rightarrow> string \<Rightarrow> string list" where
  "segments_acc cur [] = [rev cur]"
| "segments_acc cur (c # cs) =
     (if c = CHR ''/'' then rev cur # segments_acc [] cs else segments_acc (c # cur) cs)"

definition segments :: "string \<Rightarrow> string list" where
  "segments s = segments_acc [] s"

fun resolve_elem :: "string \<Rightarrow> string \<times> bool \<Rightarrow> string \<times> bool" where
  "resolve_elem elem (dst, first) =
     (if elem = ''.'' then (dst, False)
      else if elem = ''..'' then
        (case LastIndex (drop 1 dst) ''/'' of
           None \<Rightarrow> (''/'', True)
         | Some index \<Rightarrow> (''/'' @ take index (drop 1 dst), first))
      else ((if \<not> first then dst @ ''/'' else dst) @ elem, False))"

definition resolvePath :: "string \<Rightarrow> string \<Rightarrow> string" where
  "resolvePath base ref =
     (let full = (if ref = [] then base
                  else if hd ref \<noteq> CHR ''/'' then
                    (case LastIndex base ''/'' of None \<Rightarrow> ref | Some i \<Rightarrow> take (Suc i) base @ ref)
                  else ref)
      in if full = [] then []
         else
           let elems = segments full;
               dst = fst (fold resolve_elem elems (''/'', True));
               r = (if last elems = ''.'' \<or> last elems = ''..'' then dst @ ''/'' else dst)
           in if length r > 1 \<and> r ! 1 = CHR ''/'' then drop 1 r else r)"

text \<open>\<open>setPath\<close> cannot fail in \<open>ResolveReference\<close>; the library ignores its error there.\<close>

definition setPath_ignore :: "URL \<Rightarrow> string \<Rightarrow> URL" where
  "setPath_ignore u p = (case setPath u p of None \<Rightarrow> u | Some u' \<Rightarrow> u')"

definition ResolveReference :: "URL \<Rightarrow> URL \<Rightarrow> URL" where
  "ResolveReference u ref =
     (let url = (if Scheme ref = [] then ref\<lparr>Scheme := Scheme u\<rparr> else ref) in
      if Scheme ref \<noteq> [] \<or> Host ref \<noteq> [] \<or> User ref \<noteq> None then
        setPath_ignore url (resolvePath (EscapedPath ref) [])
      else if Opaque ref \<noteq> [] then url\<lparr>User := None, Host := [], Path := []\<rparr>
      else
        let url1 =
              (if Path ref = [] \<and> \<not> ForceQuery ref \<and> RawQuery ref = [] then
                 (if Fragment ref = [] then
                    url\<lparr>RawQuery := RawQuery u, Fragment := Fragment u,
                        RawFragment := RawFragment u\<rparr>
                  else url\<lparr>RawQuery := RawQuery u\<rparr>)
               else url)
        in if Path ref = [] \<and> Opaque u \<noteq> [] then
             url1\<lparr>Opaque := Opaque u, User := None, Host := [], Path := []\<rparr>
           else setPath_ignore (url1\<lparr>Host := Host u, User := User u\<rparr>)
                  (resolvePath (EscapedPath u) (EscapedPath ref)))"

section \<open>Package html: the parsed document\<close>

text \<open>
  \<open>html.Parse\<close> (golang.org/x/net/html) turns markup into a tree of nodes. The parser
  is outside the repository and is a parameter of the model; the tree it returns is
  the library's \<open>Node\<close>: a type, the tag name in \<open>Data\<close>, the attributes in document
  order, and the children (\<open>FirstChild\<close> and the \<open>NextSibling\<close> chain) as a list.
\<close>

datatype NodeType =
  ErrorNode | TextNode | DocumentNode | ElementNode | CommentNode | DoctypeNode | RawNode

datatype Attribute = Attribute (Namespace: string) (Key: string) (Val: string)

datatype Node = Node (Type: NodeType) (Data: string) (Attr: "Attribute list") (Children: "Node list")

section \<open>Package http and the rest of the environment\<close>

text \<open>
  \<open>http.Get\<close> fails (\<open>None\<close>) or returns a response with a status code and a body;
  reading the body with \<open>io.ReadAll\<close> fails (\<open>None\<close>) or gives its text. The web is
  taken as fixed during a run. \<open>os.Create\<close> succeeds or not, by file name. Go
  ranges over a map in an order of its own choosing: \<open>range_all\<close> and \<open>range_test\<close>
  give the order of the two loops over the set of JS URLs.
\<close>

record Response =
  StatusCode :: int
  Body :: "string option"

record env =
  html_Parse :: "string \<Rightarrow> Node option"
  http_Get :: "string \<Rightarrow> Response option"
  os_Create_ok :: "string \<Rightarrow> bool"
  range_all :: "string set \<Rightarrow> string list"
  range_test :: "string set \<Rightarrow> string list"

section \<open>JsCrawlar.go\<close>

subsection \<open>resolveURL and sameDomain\<close>

definition resolveURL :: "string \<Rightarrow> string \<Rightarrow> string" where
  "resolveURL base href =
     (case Parse href of
        None \<Rightarrow> []
      | Some u \<Rightarrow>
          if IsAbs u then String u
          else (case Parse base of
                  None \<Rightarrow> []
                | Some bu \<Rightarrow> String (ResolveReference bu u)))"

definition sameDomain :: "string \<Rightarrow> string \<Rightarrow> bool" where
  "sameDomain link domain =
     (case Parse link of None \<Rightarrow> False | Some u \<Rightarrow> Host u = domain)"

subsection \<open>extractJS\<close>

text \<open>The loop over the attributes of a \<open>script\<close> element: every \<open>src\<close> is resolved and kept
  when it ends in \<open>.js\<close>.\<close>

definition script_srcs :: "string \<Rightarrow> Attribute list \<Rightarrow> string list \<Rightarrow> string list" where
  "script_srcs base attrs out =
     fold (\<lambda>a out. if Key a = ''src'' then
                      (let u = resolveURL base (Val a) in
                       if HasSuffix u ''.js'' then out @ [u] else out)
                    else out) attrs out"

text \<open>The loop over the attributes of a \<open>link\<close> element assigns \<open>rel\<close>, \<open>as\<close> and \<open>href\<close>,
  which start as empty strings.\<close>

definition link_attrs :: "Attribute list \<Rightarrow> string \<times> string \<times> string" where
  "link_attrs attrs =
     fold (\<lambda>a (rel, as, href).
             if Key a = ''rel'' then (Val a, as, href)
             else if Key a = ''as'' then (rel, Val a, href)
             else if Key a = ''href'' then (rel, as, Val a)
             else (rel, as, href)) attrs ([], [], [])"

definition link_href :: "string \<Rightarrow> Attribute list \<Rightarrow> string list \<Rightarrow> string list" where
  "link_href base attrs out =
     (case link_attrs attrs of (rel, as, href) \<Rightarrow>
        if (rel = ''modulepreload'' \<or> rel = ''prefetch'') \<and> as = ''script'' then
          (let u = resolveURL base href in
           if HasSuffix u ''.js'' then out @ [u] else out)
        else out)"

fun rec_extractJS :: "string \<Rightarrow> Node \<Rightarrow> string list \<Rightarrow> string list" where
  "rec_extractJS base (Node ty dat attrs cs) out =
     fold (rec_extractJS base) cs
       (if ty = ElementNode then
          (let out1 = (if dat = ''script'' then script_srcs base attrs out else out)
           in if dat = ''link'' then link_href base attrs out1 else out1)
        else out)"

definition extractJS :: "env \<Rightarrow> string \<Rightarrow> string \<Rightarrow> string list" where
  "extractJS E htmlContent base =
     (case html_Parse E htmlContent of
        None \<Rightarrow> []
      | Some doc \<Rightarrow> rec_extractJS base doc [])"

subsection \<open>extractLinks\<close>

definition a_hrefs :: "string \<Rightarrow> Attribute list \<Rightarrow> string list \<Rightarrow> string list" where
  "a_hrefs base attrs out =
     fold (\<lambda>a out. if Key a = ''href'' then out @ [resolveURL base (Val a)] else out) attrs out"

fun rec_extractLinks :: "string \<Rightarrow> Node \<Rightarrow> string list \<Rightarrow> string list" where
  "rec_extractLinks base (Node ty dat attrs cs) out =
     fold (rec_extractLinks base) cs
       (if ty = ElementNode \<and> dat = ''a'' then a_hrefs base attrs out else out)"

definition extractLinks :: "env \<Rightarrow> string \<Rightarrow> string \<Rightarrow> string list" where
  "extractLinks E htmlContent base =
     (case html_Parse E htmlContent of
        None \<Rightarrow> []
      | Some doc \<Rightarrow> rec_extractLinks base doc [])"

subsection \<open>main: the crawl loop\<close>

text \<open>
  \<open>seen\<close> and \<open>jsSet\<close> are maps from string to bool in which every stored value is
  \<open>true\<close>: sets. \<open>gets\<close> records the pages the loop has requested, in order.
\<close>

record crawl_state =
  seen :: "string set"
  queue :: "string list"
  jsSet :: "string set"
  gets :: "string list"

definition add_js :: "string \<Rightarrow> crawl_state \<Rightarrow> crawl_state" where
  "add_js js st = st\<lparr>jsSet := insert js (jsSet st)\<rparr>"

definition add_link :: "string \<Rightarrow> string \<Rightarrow> crawl_state \<Rightarrow> crawl_state" where
  "add_link domain link st =
     (if sameDomain link domain \<and> link \<notin> seen st
      then st\<lparr>seen := insert link (seen st), queue := queue st @ [link]\<rparr>
      else st)"

text \<open>One turn of the loop, after the page has been taken off the queue.\<close>

definition crawl_page :: "env \<Rightarrow> string \<Rightarrow> string \<Rightarrow> crawl_state \<Rightarrow> crawl_state" where
  "crawl_page E domain page st =
     (case http_Get E page of
        None \<Rightarrow> st
      | Some resp \<Rightarrow>
         (case Body resp of
            None \<Rightarrow> st
          | Some content \<Rightarrow>
              fold (add_link domain) (extractLinks E content page)
                (fold add_js (extractJS E content page) st)))"

definition crawl_step :: "env \<Rightarrow> string \<Rightarrow> crawl_state \<Rightarrow> crawl_state" where
  "crawl_step E domain st =
     (case queue st of
        [] \<Rightarrow> st
      | page # rest \<Rightarrow> crawl_page E domain page (st\<lparr>queue := rest, gets := gets st @ [page]\<rparr>))"

text \<open>The loop runs while the queue is not empty; on a site without end it does not return.\<close>

partial_function (option) crawl_loop :: "env \<Rightarrow> string \<Rightarrow> crawl_state \<Rightarrow> crawl_state option" where
  "crawl_loop E domain st =
     (if queue st = [] then Some st else crawl_loop E domain (crawl_step E domain st))"

definition crawl_init :: "string \<Rightarrow> crawl_state" where
  "crawl_init root = \<lparr>seen = {root}, queue = [root], jsSet = {}, gets = []\<rparr>"

subsection \<open>main: files and the test of every JS URL\<close>

text \<open>
  The files of the run, each with the lines written to it, and the JS URLs requested by
  the test loop, in order.
\<close>

record out_state =
  files :: "string \<rightharpoonup> string list"
  tested :: "string list"

definition os_Create :: "string \<Rightarrow> out_state \<Rightarrow> out_state" where
  "os_Create name w = w\<lparr>files := (files w)(name \<mapsto> [])\<rparr>"

definition Fprintln :: "string \<Rightarrow> string \<Rightarrow> out_state \<Rightarrow> out_state" where
  "Fprintln name line w =
     w\<lparr>files := (files w)(name \<mapsto> (case files w name of None \<Rightarrow> [] | Some ls \<Rightarrow> ls) @ [line])\<rparr>"

definition test_js :: "env \<Rightarrow> string \<Rightarrow> string \<Rightarrow> string \<Rightarrow> out_state \<Rightarrow> out_state" where
  "test_js E goodFile badFile js w =
     (let w1 = w\<lparr>tested := tested w @ [js]\<rparr> in
      case http_Get E js of
        None \<Rightarrow> Fprintln badFile js w1
      | Some resp \<Rightarrow>
          if StatusCode resp \<ge> 400 then Fprintln badFile js w1
          else Fprintln goodFile js w1)"

definition report :: "env \<Rightarrow> string \<Rightarrow> string set \<Rightarrow> out_state \<Rightarrow> out_state" where
  "report E domain js w =
     (if card js = 0 then w
      else
        let allFile = domain @ ''_all_js.txt'';
            goodFile = domain @ ''_good_js.txt'';
            badFile = domain @ ''_bad_js.txt''
        in if \<not> os_Create_ok E allFile then w
           else let w1 = os_Create allFile w in
             if \<not> os_Create_ok E goodFile then w1
             else let w2 = os_Create goodFile w1 in
               if \<not> os_Create_ok E badFile then w2
               else let w3 = os_Create badFile w2;
                        w4 = fold (Fprintln allFile) (range_all E js) w3
                    in fold (test_js E goodFile badFile) (range_test E js) w4)"

datatype outcome = Usage | Finished crawl_state out_state

text \<open>\<open>main\<close>, from the command line \<open>args\<close> (\<open>os.Args\<close>) and the files \<open>w\<close> there are.\<close>

definition main :: "env \<Rightarrow> string list \<Rightarrow> out_state \<Rightarrow> outcome option" where
  "main E args w =
     (if length args < 2 then Some Usage
      else
        let domain = args ! 1;
            scheme = (if length args \<ge> 3 then TrimRight (args ! 2) '':/'' else ''https'');
            root = scheme @ ''://'' @ domain @ ''/''
        in case crawl_loop E domain (crawl_init root) of
             None \<Rightarrow> None
           | Some st \<Rightarrow> Some (Finished st (report E domain (jsSet st) w)))"

section \<open>Notions used to state the properties\<close>

text \<open>The nodes of a document in document order (depth first, parents before children).\<close>

fun nodes :: "Node \<Rightarrow> Node list" where
  "nodes (Node ty dat attrs cs) = Node ty dat attrs cs # concat (map nodes cs)"

text \<open>What one node appends to the output of \<open>extractJS\<close> and of \<open>extractLinks\<close>.\<close>

definition node_js :: "string \<Rightarrow> Node \<Rightarrow> string list" where
  "node_js base n =
     (if Type n = ElementNode then
        (if Data n = ''script'' then script_srcs base (Attr n) [] else [])
        @ (if Data n = ''link'' then link_href base (Attr n) [] else [])
      else [])"

definition node_links :: "string \<Rightarrow> Node \<Rightarrow> string list" where
  "node_links base n =
     (if Type n = ElementNode \<and> Data n = ''a'' then a_hrefs base (Attr n) [] else [])"

text \<open>
  The references of a node that \<open>extractJS\<close> resolves: every \<open>src\<close> of a \<open>script\<close>, and
  the \<open>href\<close> variable of a \<open>link\<close> whose \<open>rel\<close> and \<open>as\<close> pass the test.
\<close>

definition js_refs :: "Node \<Rightarrow> string list" where
  "js_refs n =
     (if Type n = ElementNode then
        (if Data n = ''script'' then map Val (filter (\<lambda>a. Key a = ''src'') (Attr n)) else [])
        @ (if Data n = ''link'' then
             (case link_attrs (Attr n) of (rel, as, href) \<Rightarrow>
                if (rel = ''modulepreload'' \<or> rel = ''prefetch'') \<and> as = ''script''
                then [href] else [])
           else [])
      else [])"

subsection \<open>Documents and environments of the examples\<close>

definition elem :: "string \<Rightarrow> (string \<times> string) list \<Rightarrow> Node list \<Rightarrow> Node" where
  "elem name attrs cs = Node ElementNode name (map (\<lambda>(k, v). Attribute [] k v) attrs) cs"

definition text_node :: "string \<Rightarrow> Node" where
  "text_node s = Node TextNode s [] []"

text \<open>The tree \<open>html.Parse\<close> builds around the content of the head and of the body.\<close>

definition document :: "Node list \<Rightarrow> Node list \<Rightarrow> Node" where
  "document head_nodes body_nodes =
     Node DocumentNode [] []
       [elem ''html'' [] [elem ''head'' [] head_nodes, elem ''body'' [] body_nodes]]"

text \<open>
  An environment given by tables: the tree of each markup, the response of each URL
  (no entry: the request fails), every file can be created, and the two loops over the
  JS set run in the given order and in its reverse.
\<close>

definition fixed_env ::
  "(string \<times> Node) list \<Rightarrow> (string \<times> Response) list \<Rightarrow> string list \<Rightarrow> env" where
  "fixed_env pages web order =
     \<lparr>html_Parse = map_of pages, http_Get = map_of web, os_Create_ok = (\<lambda>name. True),
      range_all = (\<lambda>S. filter (\<lambda>u. u \<in> S) order),
      range_test = (\<lambda>S. filter (\<lambda>u. u \<in> S) (rev order))\<rparr>"

definition ok_page :: "string \<Rightarrow> Response" where
  "ok_page content = \<lparr>StatusCode = 200, Body = Some content\<rparr>"

definition scripts_markup :: string where
  "scripts_markup = ''<script src=\"/a/b.js\"></script><script src=\"/a/b.JS\"></script><script src=\"/a/b.js.map\"></script><script src=\"foo.js?v=2\"></script>''"

definition scripts_env :: env where
  "scripts_env = fixed_env
     [(scripts_markup,
       document [elem ''script'' [(''src'', ''/a/b.js'')] [],
                 elem ''script'' [(''src'', ''/a/b.JS'')] [],
                 elem ''script'' [(''src'', ''/a/b.js.map'')] [],
                 elem ''script'' [(''src'', ''foo.js?v=2'')] []] [])]
     [] []"

definition nohref_markup :: string where
  "nohref_markup = ''<link rel=\"modulepreload\" as=\"script\">''"

definition nohref_env :: env where
  "nohref_env = fixed_env
     [(nohref_markup,
       document [elem ''link'' [(''rel'', ''modulepreload''), (''as'', ''script'')] []] [])]
     [] []"

definition badref_markup :: string where
  "badref_markup = ''<script src=\"%zz.js\"></script><a href=\"%zz\">x</a><a href=\"/ok\">y</a>''"

definition badref_doc :: Node where
  "badref_doc = document [elem ''script'' [(''src'', ''%zz.js'')] []]
                [elem ''a'' [(''href'', ''%zz'')] [text_node ''x''],
                 elem ''a'' [(''href'', ''/ok'')] [text_node ''y'']]"

definition badref_env :: env where
  "badref_env = fixed_env [(badref_markup, badref_doc)] [] []"

definition ftp_markup :: string where
  "ftp_markup = ''<script src=\"ftp://host/a.js\"></script><link rel=\"prefetch\" as=\"script\" href=\"ftp://host/b.js\">''"

definition ftp_doc :: Node where
  "ftp_doc = document [elem ''script'' [(''src'', ''ftp://host/a.js'')] [],
                 elem ''link'' [(''rel'', ''prefetch''), (''as'', ''script''),
                                (''href'', ''ftp://host/b.js'')] []] []"

definition ftp_env :: env where
  "ftp_env = fixed_env [(ftp_markup, ftp_doc)] [] []"

text \<open>The two-page site: the seed page and its about page.\<close>

definition seed_markup :: string where
  "seed_markup = ''<script src=\"/app.js\"></script><a href=\"/about\">About</a>''"

definition about_markup :: string where
  "about_markup = ''<link rel=\"modulepreload\" as=\"script\" href=\"/chunk1.js\">''"

definition site_env :: env where
  "site_env = fixed_env
     [(seed_markup,
       document [elem ''script'' [(''src'', ''/app.js'')] []]
                [elem ''a'' [(''href'', ''/about'')] [text_node ''About'']]),
      (about_markup,
       document [elem ''link'' [(''rel'', ''modulepreload''), (''as'', ''script''),
                                (''href'', ''/chunk1.js'')] []] [])]
     [(''https://example.com/'', ok_page seed_markup),
      (''https://example.com/about'', ok_page about_markup)]
     [''https://example.com/app.js'', ''https://example.com/chunk1.js'']"

text \<open>A site of one page without any JavaScript.\<close>

definition plain_markup :: string where
  "plain_markup = ''<p>hello</p>''"

definition plain_env :: env where
  "plain_env = fixed_env
     [(plain_markup, document [] [elem ''p'' [] [text_node ''hello'']])]
     [(''https://example.com/'', ok_page plain_markup)] []"

definition no_files :: out_state where
  "no_files = \<lparr>files = Map.empty, tested = []\<rparr>"

text \<open>Three JS URLs: one answers 200, one answers 404, one cannot be reached.\<close>

definition probe_env :: env where
  "probe_env = fixed_env []
     [(''https://example.com/a.js'', \<lparr>StatusCode = 200, Body = Some []\<rparr>),
      (''https://example.com/b.js'', \<lparr>StatusCode = 404, Body = Some []\<rparr>)]
     [''https://example.com/a.js'', ''https://example.com/b.js'', ''https://example.com/c.js'']"

subsection \<open>Runs of the crawl loop\<close>

text \<open>The state after \<open>n\<close> turns of the loop, and the invariant of the loop.\<close>

definition crawl_run :: "env \<Rightarrow> string \<Rightarrow> string \<Rightarrow> nat \<Rightarrow> crawl_state" where
  "crawl_run E domain root n = (crawl_step E domain ^^ n) (crawl_init root)"

definition crawl_inv :: "crawl_state \<Rightarrow> bool" where
  "crawl_inv st = (seen st = set (gets st @ queue st) \<and> distinct (gets st @ queue st))"

text \<open>The test loop's verdict on one URL: a response arrived and its status is below 400.\<close>

definition probe_ok :: "env \<Rightarrow> string \<Rightarrow> bool" where
  "probe_ok E js = (case http_Get E js of None \<Rightarrow> False | Some resp \<Rightarrow> StatusCode resp < 400)"

declare crawl_loop.simps [code]

subsection \<open>Resolution before it is turned into a string\<close>




section \<open>Properties of the extractor\<close>

lemma script_srcs_eq:
  "script_srcs base attrs out =
     out @ filter (\<lambda>u. HasSuffix u ''.js'')
             (map (\<lambda>a. resolveURL base (Val a)) (filter (\<lambda>a. Key a = ''src'') attrs))"
  unfolding script_srcs_def
  by (induction attrs arbitrary: out) (simp_all add: Let_def)

lemma link_href_eq: "link_href base attrs out = out @ link_href base attrs []"
  unfolding link_href_def by (simp add: Let_def split: prod.splits)

lemma a_hrefs_eq:
  "a_hrefs base attrs out =
     out @ map (\<lambda>a. resolveURL base (Val a)) (filter (\<lambda>a. Key a = ''href'') attrs)"
  unfolding a_hrefs_def
  by (induction attrs arbitrary: out) simp_all

lemma fold_append_contrib:
  assumes "\<And>c out. c \<in> set cs \<Longrightarrow> f c out = out @ g c"
  shows "fold f cs out = out @ concat (map g cs)"
  using assms by (induction cs arbitrary: out) simp_all

lemma concat_nodes_children:
  "concat (map (\<lambda>c. concat (map g (nodes c))) cs) = concat (map g (concat (map nodes cs)))"
  by (induction cs) simp_all

lemma rec_extractJS_eq:
  "rec_extractJS base n out = out @ concat (map (node_js base) (nodes n))"
proof (induction base n out rule: rec_extractJS.induct)
  case (1 base ty dat attrs cs out)
  have step: "\<And>c out. c \<in> set cs \<Longrightarrow>
      rec_extractJS base c out = out @ concat (map (node_js base) (nodes c))"
    using 1 by blast
  have "fold (rec_extractJS base) cs out' =
          out' @ concat (map (\<lambda>c. concat (map (node_js base) (nodes c))) cs)" for out'
    using step by (rule fold_append_contrib)
  moreover have "(if ty = ElementNode then
          (let out1 = (if dat = ''script'' then script_srcs base attrs out else out)
           in if dat = ''link'' then link_href base attrs out1 else out1)
        else out) = out @ node_js base (Node ty dat attrs cs)"
    by (simp add: node_js_def Let_def script_srcs_eq[of _ _ out] script_srcs_eq[of _ _ "[]"]
          link_href_eq[of _ _ out] link_href_eq[of _ _ "script_srcs base attrs out"])
  ultimately show ?case
    by (simp add: concat_nodes_children)
qed

lemma rec_extractLinks_eq:
  "rec_extractLinks base n out = out @ concat (map (node_links base) (nodes n))"
proof (induction base n out rule: rec_extractLinks.induct)
  case (1 base ty dat attrs cs out)
  have step: "\<And>c out. c \<in> set cs \<Longrightarrow>
      rec_extractLinks base c out = out @ concat (map (node_links base) (nodes c))"
    using 1 by blast
  have "fold (rec_extractLinks base) cs out' =
          out' @ concat (map (\<lambda>c. concat (map (node_links base) (nodes c))) cs)" for out'
    using step by (rule fold_append_contrib)
  moreover have "(if ty = ElementNode \<and> dat = ''a'' then a_hrefs base attrs out else out)
        = out @ node_links base (Node ty dat attrs cs)"
    by (simp add: node_links_def a_hrefs_eq[of _ _ out] a_hrefs_eq[of _ _ "[]"])
  ultimately show ?case
    by (simp add: concat_nodes_children)
qed

lemma script_srcs_refs:
  "script_srcs base attrs [] =
      filter (\<lambda>u. HasSuffix u ''.js'')
        (map (resolveURL base) (map Val (filter (\<lambda>a. Key a = ''src'') attrs)))"
  by (simp add: script_srcs_eq[of _ _ "[]"] comp_def)

lemma link_href_refs:
  "link_href base attrs [] =
      filter (\<lambda>u. HasSuffix u ''.js'') (map (resolveURL base)
        (case link_attrs attrs of (rel, as, href) \<Rightarrow>
           if (rel = ''modulepreload'' \<or> rel = ''prefetch'') \<and> as = ''script''
           then [href] else []))"
  apply (cases "link_attrs attrs")
  apply (simp add: link_href_def Let_def)
  done

lemma if_filter_map:
  "(if c then filter P (map f X) else []) = filter P (map f (if c then X else []))"
  by simp

lemma node_js_refs:
  "node_js base n = filter (\<lambda>u. HasSuffix u ''.js'') (map (resolveURL base) (js_refs n))"
proof (cases "Type n = ElementNode")
  case True
  then show ?thesis
    unfolding node_js_def js_refs_def script_srcs_refs link_href_refs
    by (simp only: if_filter_map map_append filter_append if_True simp_thms)
next
  case False
  then show ?thesis
    unfolding node_js_def js_refs_def
    by (simp only: if_False list.map filter.simps simp_thms)
qed

lemma extractJS_eq:
  "html_Parse E markup = Some doc \<Longrightarrow>
   extractJS E markup base = concat (map (node_js base) (nodes doc))"
  by (simp add: extractJS_def rec_extractJS_eq)

lemma extractLinks_eq:
  "html_Parse E markup = Some doc \<Longrightarrow>
   extractLinks E markup base = concat (map (node_links base) (nodes doc))"
  by (simp add: extractLinks_def rec_extractLinks_eq)

lemma extractJS_mem:
  "html_Parse E markup = Some doc \<Longrightarrow>
   u \<in> set (extractJS E markup base) \<longleftrightarrow>
     HasSuffix u ''.js'' \<and> (\<exists>n \<in> set (nodes doc). \<exists>r \<in> set (js_refs n). u = resolveURL base r)"
  by (auto simp: extractJS_eq node_js_refs)

lemma extractJS_suffix:
  assumes "u \<in> set (extractJS E markup base)"
  shows "HasSuffix u ''.js''"
proof (cases "html_Parse E markup")
  case None
  then show ?thesis using assms by (simp add: extractJS_def)
next
  case (Some doc)
  then show ?thesis using assms by (simp add: extractJS_mem)
qed

subsection \<open>Script elements\<close>

text \<open>
  Claim C2. For every markup and page URL, a \<open>script\<close> element with a \<open>src\<close> attribute
  puts the resolved URL into the JS URLs exactly when the resolved string ends with the
  suffix \<open>.js\<close>, compared byte by byte on the whole resolved string. On the page
  \<open>https://example.com/\<close> the source \<open>/a/b.js\<close> is kept, while \<open>/a/b.JS\<close>,
  \<open>/a/b.js.map\<close> and \<open>foo.js?v=2\<close> resolve to strings that do not end in \<open>.js\<close> and
  are left out.
\<close>

theorem script_src_js_suffix:
  assumes "html_Parse E markup = Some doc"
    and "Node ElementNode ''script'' attrs cs \<in> set (nodes doc)"
    and "a \<in> set attrs" and "Key a = ''src''"
  shows "(resolveURL base (Val a) \<in> set (extractJS E markup base)
            \<longleftrightarrow> HasSuffix (resolveURL base (Val a)) ''.js'')
         \<and> extractJS scripts_env scripts_markup ''https://example.com/''
              = [''https://example.com/a/b.js'']
         \<and> map (resolveURL ''https://example.com/'')
                [''/a/b.js'', ''/a/b.JS'', ''/a/b.js.map'', ''foo.js?v=2'']
              = [''https://example.com/a/b.js'', ''https://example.com/a/b.JS'',
                 ''https://example.com/a/b.js.map'', ''https://example.com/foo.js?v=2'']"
proof -
  have "Val a \<in> set (js_refs (Node ElementNode ''script'' attrs cs))"
    using assms(3,4) by (simp add: js_refs_def)
  then have "resolveURL base (Val a) \<in> set (extractJS E markup base)
            \<longleftrightarrow> HasSuffix (resolveURL base (Val a)) ''.js''"
    using assms(1,2) by (auto simp: extractJS_mem)
  moreover have "extractJS scripts_env scripts_markup ''https://example.com/''
              = [''https://example.com/a/b.js'']"
    by code_simp
  moreover have "map (resolveURL ''https://example.com/'')
                [''/a/b.js'', ''/a/b.JS'', ''/a/b.js.map'', ''foo.js?v=2'']
              = [''https://example.com/a/b.js'', ''https://example.com/a/b.JS'',
                 ''https://example.com/a/b.js.map'', ''https://example.com/foo.js?v=2'']"
    by code_simp
  ultimately show ?thesis by blast
qed

theorem script_src_js_suffix_witness:
  "html_Parse scripts_env scripts_markup
     = Some (document [elem ''script'' [(''src'', ''/a/b.js'')] [],
                 elem ''script'' [(''src'', ''/a/b.JS'')] [],
                 elem ''script'' [(''src'', ''/a/b.js.map'')] [],
                 elem ''script'' [(''src'', ''foo.js?v=2'')] []] [])
   \<and> ''https://example.com/a/b.js''
        \<in> set (extractJS scripts_env scripts_markup ''https://example.com/'')
   \<and> ''https://example.com/a/b.JS''
        \<notin> set (extractJS scripts_env scripts_markup ''https://example.com/'')"
proof -
  let ?doc = "document [elem ''script'' [(''src'', ''/a/b.js'')] [],
                 elem ''script'' [(''src'', ''/a/b.JS'')] [],
                 elem ''script'' [(''src'', ''/a/b.js.map'')] [],
                 elem ''script'' [(''src'', ''foo.js?v=2'')] []] []"
  have p: "html_Parse scripts_env scripts_markup = Some ?doc"
    by (simp add: scripts_env_def fixed_env_def)
  have n1: "Node ElementNode ''script'' [Attribute [] ''src'' ''/a/b.js''] [] \<in> set (nodes ?doc)"
    by (simp add: document_def elem_def)
  have n2: "Node ElementNode ''script'' [Attribute [] ''src'' ''/a/b.JS''] [] \<in> set (nodes ?doc)"
    by (simp add: document_def elem_def)
  have r1: "resolveURL ''https://example.com/'' ''/a/b.js'' = ''https://example.com/a/b.js''"
    by code_simp
  have r2: "resolveURL ''https://example.com/'' ''/a/b.JS'' = ''https://example.com/a/b.JS''"
    by code_simp
  have s1: "HasSuffix ''https://example.com/a/b.js'' ''.js''"
    by (simp add: HasSuffix_def)
  have s2: "\<not> HasSuffix ''https://example.com/a/b.JS'' ''.js''"
    by (simp add: HasSuffix_def)
  from script_src_js_suffix[OF p n1, of "Attribute [] ''src'' ''/a/b.js''" "''https://example.com/''"]
       script_src_js_suffix[OF p n2, of "Attribute [] ''src'' ''/a/b.JS''" "''https://example.com/''"]
  show ?thesis using p r1 r2 s1 s2 by simp
qed

lemma extractJS_refs:
  assumes "html_Parse E markup = Some doc"
  shows "extractJS E markup base
         = filter (\<lambda>u. HasSuffix u ''.js'')
             (map (resolveURL base) (concat (map js_refs (nodes doc))))"
proof -
  have "node_js base = (\<lambda>n. filter (\<lambda>u. HasSuffix u ''.js'') (map (resolveURL base) (js_refs n)))"
    by (rule ext) (rule node_js_refs)
  then show ?thesis
    by (simp add: extractJS_eq[OF assms] map_concat filter_concat comp_def)
qed

subsection \<open>Link elements\<close>

text \<open>
  Claim C3. A \<open>link\<close> element should put its resolved \<open>href\<close> into the JS URLs only when
  \<open>rel\<close>, \<open>as\<close> and \<open>href\<close> are all present (with \<open>rel\<close> equal to \<open>modulepreload\<close> or
  \<open>prefetch\<close>, \<open>as\<close> equal to \<open>script\<close>, and a resolved URL ending in \<open>.js\<close>), so a link
  without \<open>href\<close> should contribute nothing. The code does not ask whether \<open>href\<close> is
  present: the variable stays empty, the empty reference resolves to the page itself, and
  on the page \<open>https://example.com/app.js\<close> the element
  \<open><link rel="modulepreload" as="script">\<close> yields the page's own URL.
\<close>

theorem link_without_href_yields_page_url:
  "extractJS nohref_env nohref_markup ''https://example.com/app.js''
     = [''https://example.com/app.js'']"
  by code_simp

subsection \<open>References that do not parse\<close>

text \<open>
  Claim C7, as stated: a reference that cannot be parsed is dropped from the JS URLs and
  from the link URLs. It fails for the link URLs: on the page \<open>https://example.com/\<close>
  the anchor with \<open>href="%zz"\<close> leaves the empty string in the output of \<open>extractLinks\<close>.
\<close>

theorem failed_href_is_empty_link:
  "Parse ''%zz'' = None
   \<and> extractLinks badref_env badref_markup ''https://example.com/''
       = ['''', ''https://example.com/ok'']
   \<and> [] \<in> set (extractLinks badref_env badref_markup ''https://example.com/'')"
  by code_simp

text \<open>
  Claim C7, amended. A reference that cannot be parsed resolves to the empty string. The
  empty string never appears among the JS URLs. Among the link URLs it appears as an
  entry of its own, which the domain filter of the crawl loop rejects for every domain
  but the empty one. The failure stops nothing: the JS URLs are the resolved references
  of all nodes that end in \<open>.js\<close>, and the link URLs are the resolved \<open>href\<close>s of all
  \<open>a\<close> elements, in document order.
\<close>

theorem failed_reference_resolves_to_empty:
  assumes "html_Parse E markup = Some doc"
  shows "(Parse href = None \<longrightarrow> resolveURL base href = [])
     \<and> [] \<notin> set (extractJS E markup base)
     \<and> extractJS E markup base
         = filter (\<lambda>u. HasSuffix u ''.js'')
             (map (resolveURL base) (concat (map js_refs (nodes doc))))
     \<and> extractLinks E markup base
         = map (resolveURL base)
             (concat (map (\<lambda>n. if Type n = ElementNode \<and> Data n = ''a''
                                 then map Val (filter (\<lambda>a. Key a = ''href'') (Attr n)) else [])
                          (nodes doc)))
     \<and> (sameDomain [] domain \<longleftrightarrow> domain = [])"
proof -
  have 1: "Parse href = None \<longrightarrow> resolveURL base href = []"
    by (simp add: resolveURL_def)
  have "\<not> HasSuffix [] ''.js''" by (simp add: HasSuffix_def)
  then have 2: "[] \<notin> set (extractJS E markup base)"
    using extractJS_suffix by blast
  have 3: "extractJS E markup base
         = filter (\<lambda>u. HasSuffix u ''.js'')
             (map (resolveURL base) (concat (map js_refs (nodes doc))))"
    by (rule extractJS_refs[OF assms])
  have "Parse [] = Some newURL" by code_simp
  then have 5: "sameDomain [] domain \<longleftrightarrow> domain = []"
    by (auto simp: sameDomain_def newURL_def)
  have "node_links base = (\<lambda>n. map (resolveURL base)
          (if Type n = ElementNode \<and> Data n = ''a''
           then map Val (filter (\<lambda>a. Key a = ''href'') (Attr n)) else []))"
    by (rule ext) (simp add: node_links_def a_hrefs_eq[of _ _ "[]"] comp_def)
  then have 4: "extractLinks E markup base
         = map (resolveURL base)
             (concat (map (\<lambda>n. if Type n = ElementNode \<and> Data n = ''a''
                                 then map Val (filter (\<lambda>a. Key a = ''href'') (Attr n)) else [])
                          (nodes doc)))"
    by (simp add: extractLinks_eq[OF assms] map_concat comp_def)
  show ?thesis using 1 2 3 4 5 by blast
qed

theorem failed_reference_witness:
  "html_Parse badref_env badref_markup = Some badref_doc
   \<and> Parse ''%zz'' = None \<and> resolveURL ''https://example.com/'' ''%zz'' = []
   \<and> extractJS badref_env badref_markup ''https://example.com/'' = []
   \<and> extractLinks badref_env badref_markup ''https://example.com/''
       = ['''', ''https://example.com/ok'']"
proof -
  have p: "html_Parse badref_env badref_markup = Some badref_doc"
    by (simp add: badref_env_def fixed_env_def)
  have z: "Parse ''%zz'' = None" by code_simp
  have j: "extractJS badref_env badref_markup ''https://example.com/'' = []" by code_simp
  have l: "extractLinks badref_env badref_markup ''https://example.com/''
       = ['''', ''https://example.com/ok'']" by code_simp
  from failed_reference_resolves_to_empty[OF p, of "''%zz''" "''https://example.com/''"]
  show ?thesis using p z j l by simp
qed

subsection \<open>Schemes\<close>

text \<open>
  Claim C10. The extractor puts no condition on the scheme of a JS URL: an absolute
  reference of any scheme, taken from a \<open>src\<close> of a \<open>script\<close> or from the \<open>href\<close> of a
  \<open>link\<close> whose \<open>rel\<close> and \<open>as\<close> pass, is returned as its own string form and is among the
  JS URLs whenever that string ends in \<open>.js\<close>. Only the suffix and the values of \<open>rel\<close>
  and \<open>as\<close> are tested.
\<close>

theorem any_scheme_js_included:
  assumes "html_Parse E markup = Some doc"
    and "n \<in> set (nodes doc)" and "href \<in> set (js_refs n)"
    and "Parse href = Some u" and "IsAbs u" and "HasSuffix (String u) ''.js''"
  shows "resolveURL base href = String u \<and> String u \<in> set (extractJS E markup base)
     \<and> extractJS E markup base
         = filter (\<lambda>u. HasSuffix u ''.js'')
             (map (resolveURL base) (concat (map js_refs (nodes doc))))"
proof -
  have r: "resolveURL base href = String u"
    using assms(4,5) by (simp add: resolveURL_def)
  have "String u \<in> set (extractJS E markup base)"
    unfolding extractJS_mem[OF assms(1)] using assms(2,3,6) r[symmetric] by blast
  with r extractJS_refs[OF assms(1)] show ?thesis by blast
qed

theorem any_scheme_js_included_witness:
  "extractJS ftp_env ftp_markup ''https://example.com/'' = [''ftp://host/a.js'', ''ftp://host/b.js'']
   \<and> resolveURL ''https://example.com/'' ''ftp://host/a.js'' = ''ftp://host/a.js''
   \<and> ''ftp://host/a.js'' \<in> set (extractJS ftp_env ftp_markup ''https://example.com/'')
   \<and> map_option Scheme (Parse ''ftp://host/a.js'') = Some ''ftp''"
proof -
  have p: "html_Parse ftp_env ftp_markup = Some ftp_doc"
    by (simp add: ftp_env_def fixed_env_def)
  have n: "elem ''script'' [(''src'', ''ftp://host/a.js'')] [] \<in> set (nodes ftp_doc)"
    by (simp add: ftp_doc_def document_def elem_def)
  have h: "''ftp://host/a.js'' \<in> set (js_refs (elem ''script'' [(''src'', ''ftp://host/a.js'')] []))"
    by (simp add: js_refs_def elem_def)
  obtain u where u: "Parse ''ftp://host/a.js'' = Some u" "IsAbs u" "String u = ''ftp://host/a.js''"
      "Scheme u = ''ftp''"
  proof -
    have "case Parse ''ftp://host/a.js'' of None \<Rightarrow> False
          | Some u \<Rightarrow> IsAbs u \<and> String u = ''ftp://host/a.js'' \<and> Scheme u = ''ftp''"
      by code_simp
    then show ?thesis using that by (auto split: option.splits)
  qed
  have s: "HasSuffix (String u) ''.js''" by (simp add: u HasSuffix_def)
  have e: "extractJS ftp_env ftp_markup ''https://example.com/'' = [''ftp://host/a.js'', ''ftp://host/b.js'']"
    by code_simp
  from any_scheme_js_included[OF p n h u(1) u(2) s, of "''https://example.com/''"]
  have "resolveURL ''https://example.com/'' ''ftp://host/a.js'' = String u
        \<and> String u \<in> set (extractJS ftp_env ftp_markup ''https://example.com/'')"
    by blast
  then show ?thesis using u e by simp
qed

section \<open>Properties of the domain filter\<close>

text \<open>
  Claim C5. \<open>sameDomain\<close> accepts a link exactly when the link parses as a URL and its
  host is the domain, compared as strings: the scheme is not looked at, upper and lower
  case differ, and a subdomain is another host. \<open>http://sub.example.com/x\<close> is not in
  the domain \<open>example.com\<close>, and a link that does not parse is rejected.
\<close>

theorem sameDomain_exact_host:
  "(sameDomain link domain \<longleftrightarrow> (\<exists>u. Parse link = Some u \<and> Host u = domain))
   \<and> \<not> sameDomain ''http://sub.example.com/x'' ''example.com''
   \<and> sameDomain ''http://example.com/x'' ''example.com''
   \<and> sameDomain ''ftp://example.com/x'' ''example.com''
   \<and> \<not> sameDomain ''http://EXAMPLE.com/x'' ''example.com''
   \<and> \<not> sameDomain ''http://www.example.com/x'' ''example.com''
   \<and> Parse ''%zz'' = None \<and> \<not> sameDomain ''%zz'' domain"
proof -
  have "sameDomain link domain \<longleftrightarrow> (\<exists>u. Parse link = Some u \<and> Host u = domain)"
    by (cases "Parse link") (simp_all add: sameDomain_def)
  moreover have "\<not> sameDomain ''http://sub.example.com/x'' ''example.com''" by code_simp
  moreover have "sameDomain ''http://example.com/x'' ''example.com''" by code_simp
  moreover have "sameDomain ''ftp://example.com/x'' ''example.com''" by code_simp
  moreover have "\<not> sameDomain ''http://EXAMPLE.com/x'' ''example.com''" by code_simp
  moreover have "\<not> sameDomain ''http://www.example.com/x'' ''example.com''" by code_simp
  moreover have p: "Parse ''%zz'' = None" by code_simp
  moreover have "\<not> sameDomain ''%zz'' domain" by (simp add: sameDomain_def p)
  ultimately show ?thesis by blast
qed

theorem sameDomain_exact_host_witness:
  "sameDomain ''http://example.com/x'' ''example.com''
   \<and> (\<exists>u. Parse ''http://example.com/x'' = Some u \<and> Host u = ''example.com'')"
  using sameDomain_exact_host[of "''http://example.com/x''" "''example.com''"] by blast

section \<open>Properties of the crawl loop\<close>

lemma fold_add_js_fields [simp]:
  "seen (fold add_js js st) = seen st"
  "queue (fold add_js js st) = queue st"
  "gets (fold add_js js st) = gets st"
  by (induction js arbitrary: st) (simp_all add: add_js_def)

lemma add_link_inv:
  "crawl_inv st \<Longrightarrow> crawl_inv (add_link domain link st)"
  by (auto simp: crawl_inv_def add_link_def)

lemma add_link_gets [simp]: "gets (add_link domain link st) = gets st"
  by (simp add: add_link_def)

lemma add_link_grows:
  "seen st \<subseteq> seen (add_link domain link st)
   \<and> (\<exists>new. queue (add_link domain link st) = queue st @ new)"
  by (auto simp: add_link_def)

lemma fold_add_link:
  "crawl_inv st \<Longrightarrow>
   crawl_inv (fold (add_link domain) links st)
   \<and> gets (fold (add_link domain) links st) = gets st
   \<and> seen st \<subseteq> seen (fold (add_link domain) links st)
   \<and> (\<exists>new. queue (fold (add_link domain) links st) = queue st @ new)"
proof (induction links arbitrary: st)
  case Nil
  then show ?case by simp
next
  case (Cons l links)
  let ?st1 = "add_link domain l st"
  have i1: "crawl_inv ?st1" using Cons.prems by (rule add_link_inv)
  from Cons.IH[OF i1] add_link_grows[of st domain l]
  show ?case by (auto simp: add_link_gets)
qed


lemma crawl_page_inv:
  assumes "crawl_inv st"
  shows "crawl_inv (crawl_page E domain page st)
   \<and> gets (crawl_page E domain page st) = gets st
   \<and> seen st \<subseteq> seen (crawl_page E domain page st)
   \<and> (\<exists>new. queue (crawl_page E domain page st) = queue st @ new)"
proof (cases "http_Get E page")
  case None
  then show ?thesis using assms by (simp add: crawl_page_def)
next
  case (Some resp)
  show ?thesis
  proof (cases "Body resp")
    case None
    then show ?thesis using assms Some by (simp add: crawl_page_def)
  next
    case (Some content)
    let ?st1 = "fold add_js (extractJS E content page) st"
    have "crawl_inv ?st1" using assms by (simp add: crawl_inv_def)
    from fold_add_link[OF this, of domain "extractLinks E content page"]
    show ?thesis using \<open>http_Get E page = Some resp\<close> Some by (simp add: crawl_page_def)
  qed
qed

lemma crawl_step_inv:
  assumes "crawl_inv st"
  shows "crawl_inv (crawl_step E domain st)
   \<and> seen st \<subseteq> seen (crawl_step E domain st)
   \<and> (\<exists>new. gets (crawl_step E domain st) @ queue (crawl_step E domain st)
               = (gets st @ queue st) @ new)"
proof (cases "queue st")
  case Nil
  then show ?thesis using assms by (simp add: crawl_step_def)
next
  case (Cons page rest)
  let ?st0 = "st\<lparr>queue := rest, gets := gets st @ [page]\<rparr>"
  have "crawl_inv ?st0" using assms Cons by (simp add: crawl_inv_def)
  from crawl_page_inv[OF this, of E domain page]
  show ?thesis using Cons by (auto simp: crawl_step_def)
qed

lemma crawl_run_inv: "crawl_inv (crawl_run E domain root n)"
proof (induction n)
  case 0
  show ?case by (simp add: crawl_run_def crawl_init_def crawl_inv_def)
next
  case (Suc n)
  then show ?case using crawl_step_inv[of "crawl_run E domain root n" E domain]
    by (simp add: crawl_run_def)
qed

lemma fold_add_link_seen:
  "seen (fold (add_link domain) links st) = seen st \<union> {l \<in> set links. sameDomain l domain}"
  by (induction links arbitrary: st) (auto simp: add_link_def)

lemma fold_add_link_queue:
  "set (queue (fold (add_link domain) links st))
     = set (queue st) \<union> {l \<in> set links. sameDomain l domain \<and> l \<notin> seen st}"
  by (induction links arbitrary: st) (auto simp: add_link_def)

lemma crawl_step_seen:
  assumes "queue st = page # rest" and "http_Get E page = Some resp" and "Body resp = Some content"
  shows "seen (crawl_step E domain st)
           = seen st \<union> {l \<in> set (extractLinks E content page). sameDomain l domain}"
    and "set (queue (crawl_step E domain st))
           = set rest \<union> {l \<in> set (extractLinks E content page). sameDomain l domain \<and> l \<notin> seen st}"
  using assms by (simp_all add: crawl_step_def crawl_page_def fold_add_link_seen fold_add_link_queue)

text \<open>
  Claim C6. In every run, after any number of turns of the loop: the visited set only
  grows; every URL in the queue is in the visited set; the visited set is exactly what
  has been requested or waits in the queue; the requested pages followed by the queue,
  which is the sequence of all URLs ever enqueued, has no string twice and is only ever
  extended at its end. The key is the resolved string itself and nothing else: a link
  is enqueued, and put into the visited set, exactly when the domain filter accepts it
  and that very string is not yet in the visited set, and is otherwise left out; so
  after a list of links, and after a turn of the loop on a page that was read, the
  visited set has gained exactly the accepted links, and the queue exactly those among
  them that were not visited before. \<open>https://example.com/a\<close>, \<open>https://example.com/a/\<close>
  and \<open>https://example.com/A\<close> are all enqueued, a repeated string is not, and the same
  page under the default port is outside the domain \<open>example.com\<close>.
\<close>

theorem visited_set_invariants:
  "seen (crawl_run E domain root n) \<subseteq> seen (crawl_run E domain root (Suc n))
   \<and> set (queue (crawl_run E domain root n)) \<subseteq> seen (crawl_run E domain root n)
   \<and> seen (crawl_run E domain root n)
       = set (gets (crawl_run E domain root n) @ queue (crawl_run E domain root n))
   \<and> distinct (gets (crawl_run E domain root n) @ queue (crawl_run E domain root n))
   \<and> (\<exists>new. gets (crawl_run E domain root (Suc n)) @ queue (crawl_run E domain root (Suc n))
              = (gets (crawl_run E domain root n) @ queue (crawl_run E domain root n)) @ new)
   \<and> (sameDomain link domain \<and> link \<notin> seen st \<longrightarrow>
        add_link domain link st = st\<lparr>seen := insert link (seen st), queue := queue st @ [link]\<rparr>)
   \<and> (\<not> (sameDomain link domain \<and> link \<notin> seen st) \<longrightarrow> add_link domain link st = st)
   \<and> seen (fold (add_link domain) links st) = seen st \<union> {l \<in> set links. sameDomain l domain}
   \<and> set (queue (fold (add_link domain) links st))
       = set (queue st) \<union> {l \<in> set links. sameDomain l domain \<and> l \<notin> seen st}
   \<and> (queue st = page # rest \<and> http_Get E page = Some resp \<and> Body resp = Some content \<longrightarrow>
        seen (crawl_step E domain st)
          = seen st \<union> {l \<in> set (extractLinks E content page). sameDomain l domain}
        \<and> set (queue (crawl_step E domain st))
          = set rest \<union> {l \<in> set (extractLinks E content page). sameDomain l domain \<and> l \<notin> seen st})
   \<and> queue (fold (add_link ''example.com'')
               [''https://example.com/a'', ''https://example.com/a/'', ''https://example.com/A'',
                ''https://example.com/a'', ''https://example.com:443/a'']
               (crawl_init ''https://example.com/''))
       = [''https://example.com/'', ''https://example.com/a'', ''https://example.com/a/'',
          ''https://example.com/A'']"
proof -
  let ?st = "crawl_run E domain root n"
  have i: "crawl_inv ?st" by (rule crawl_run_inv)
  have s: "crawl_run E domain root (Suc n) = crawl_step E domain ?st"
    by (simp add: crawl_run_def)
  have inv: "seen ?st \<subseteq> seen (crawl_run E domain root (Suc n))
   \<and> set (queue ?st) \<subseteq> seen ?st
   \<and> seen ?st = set (gets ?st @ queue ?st)
   \<and> distinct (gets ?st @ queue ?st)
   \<and> (\<exists>new. gets (crawl_run E domain root (Suc n)) @ queue (crawl_run E domain root (Suc n))
              = (gets ?st @ queue ?st) @ new)"
    using i crawl_step_inv[OF i, of E domain] unfolding s crawl_inv_def by auto
  have a1: "sameDomain link domain \<and> link \<notin> seen st \<longrightarrow>
        add_link domain link st = st\<lparr>seen := insert link (seen st), queue := queue st @ [link]\<rparr>"
    by (simp add: add_link_def)
  have a2: "\<not> (sameDomain link domain \<and> link \<notin> seen st) \<longrightarrow> add_link domain link st = st"
    by (simp add: add_link_def)
  have c: "queue st = page # rest \<and> http_Get E page = Some resp \<and> Body resp = Some content \<longrightarrow>
        seen (crawl_step E domain st)
          = seen st \<union> {l \<in> set (extractLinks E content page). sameDomain l domain}
        \<and> set (queue (crawl_step E domain st))
          = set rest \<union> {l \<in> set (extractLinks E content page). sameDomain l domain \<and> l \<notin> seen st}"
    using crawl_step_seen[of st page rest E resp content domain] by blast
  have e: "queue (fold (add_link ''example.com'')
               [''https://example.com/a'', ''https://example.com/a/'', ''https://example.com/A'',
                ''https://example.com/a'', ''https://example.com:443/a'']
               (crawl_init ''https://example.com/''))
       = [''https://example.com/'', ''https://example.com/a'', ''https://example.com/a/'',
          ''https://example.com/A'']"
    by code_simp
  show ?thesis
    apply (intro conjI)
    apply (rule inv[THEN conjunct1])
    apply (rule inv[THEN conjunct2, THEN conjunct1])
    apply (rule inv[THEN conjunct2, THEN conjunct2, THEN conjunct1])
    apply (rule inv[THEN conjunct2, THEN conjunct2, THEN conjunct2, THEN conjunct1])
    apply (rule inv[THEN conjunct2, THEN conjunct2, THEN conjunct2, THEN conjunct2])
    apply (rule a1)
    apply (rule a2)
    apply (rule fold_add_link_seen)
    apply (rule fold_add_link_queue)
    apply (rule c)
    apply (rule e)
    done
qed

theorem visited_set_invariants_witness:
  "distinct (gets (crawl_run site_env ''example.com'' ''https://example.com/'' 1)
             @ queue (crawl_run site_env ''example.com'' ''https://example.com/'' 1))
   \<and> gets (crawl_run site_env ''example.com'' ''https://example.com/'' 1)
        @ queue (crawl_run site_env ''example.com'' ''https://example.com/'' 1)
       = [''https://example.com/'', ''https://example.com/about'']
   \<and> sameDomain ''https://example.com/About'' ''example.com''
   \<and> ''https://example.com/About''
        \<notin> seen (crawl_run site_env ''example.com'' ''https://example.com/'' 1)
   \<and> queue (add_link ''example.com'' ''https://example.com/About''
               (crawl_run site_env ''example.com'' ''https://example.com/'' 1))
       = [''https://example.com/about'', ''https://example.com/About'']
   \<and> queue (crawl_init ''https://example.com/'') = [''https://example.com/'']
   \<and> http_Get site_env ''https://example.com/'' = Some (ok_page seed_markup)
   \<and> seen (crawl_step site_env ''example.com'' (crawl_init ''https://example.com/''))
       = {''https://example.com/'', ''https://example.com/about''}"
proof -
  let ?st = "crawl_run site_env ''example.com'' ''https://example.com/'' 1"
  have r: "?st
     = \<lparr>seen = {''https://example.com/'', ''https://example.com/about''},
        queue = [''https://example.com/about''],
        jsSet = {''https://example.com/app.js''},
        gets = [''https://example.com/'']\<rparr>"
    by code_simp
  have d: "sameDomain ''https://example.com/About'' ''example.com''" by code_simp
  have n: "''https://example.com/About'' \<notin> seen ?st" unfolding r by simp
  have q: "queue (crawl_init ''https://example.com/'') = [''https://example.com/'']"
    by (simp add: crawl_init_def)
  have g: "http_Get site_env ''https://example.com/'' = Some (ok_page seed_markup)"
    by (simp add: site_env_def fixed_env_def)
  have b: "Body (ok_page seed_markup) = Some seed_markup" by (simp add: ok_page_def)
  have l: "extractLinks site_env seed_markup ''https://example.com/'' = [''https://example.com/about'']"
    by code_simp
  note t = visited_set_invariants[where E = site_env and domain = "''example.com''"
      and root = "''https://example.com/''" and n = 1
      and link = "''https://example.com/About''" and st = ?st]
  note t2 = visited_set_invariants[where E = site_env and domain = "''example.com''"
      and st = "crawl_init ''https://example.com/''" and page = "''https://example.com/''"
      and rest = "[]" and resp = "ok_page seed_markup" and content = seed_markup]
  have 1: "distinct (gets ?st @ queue ?st)"
    by (rule t[THEN conjunct2, THEN conjunct2, THEN conjunct2, THEN conjunct1])
  have 2: "add_link ''example.com'' ''https://example.com/About'' ?st
        = ?st\<lparr>seen := insert ''https://example.com/About'' (seen ?st),
               queue := queue ?st @ [''https://example.com/About'']\<rparr>"
    by (rule t[THEN conjunct2, THEN conjunct2, THEN conjunct2, THEN conjunct2, THEN conjunct2,
                THEN conjunct1, THEN mp]) (rule conjI[OF d n])
  have 3: "seen (crawl_step site_env ''example.com'' (crawl_init ''https://example.com/''))
          = seen (crawl_init ''https://example.com/'')
            \<union> {l \<in> set (extractLinks site_env seed_markup ''https://example.com/'').
                 sameDomain l ''example.com''}"
    by (rule t2[THEN conjunct2, THEN conjunct2, THEN conjunct2, THEN conjunct2, THEN conjunct2,
                 THEN conjunct2, THEN conjunct2, THEN conjunct2, THEN conjunct2, THEN conjunct1,
                 THEN mp, THEN conjunct1])
       (intro conjI q g b)
  have sd: "sameDomain ''https://example.com/about'' ''example.com''" by code_simp
  have 4: "seen (crawl_step site_env ''example.com'' (crawl_init ''https://example.com/''))
       = {''https://example.com/'', ''https://example.com/about''}"
    unfolding 3 l using sd by (auto simp: crawl_init_def)
  have 5: "queue (add_link ''example.com'' ''https://example.com/About'' ?st)
       = [''https://example.com/about'', ''https://example.com/About'']"
    unfolding 2 unfolding r by simp
  have 6: "gets ?st @ queue ?st = [''https://example.com/'', ''https://example.com/about'']"
    unfolding r by simp
  show ?thesis
    using 1 6 d n 5 q g 4 by (intro conjI)
qed

lemma crawl_loop_is_run:
  "crawl_loop E domain st = Some st' \<Longrightarrow> \<exists>n. st' = (crawl_step E domain ^^ n) st \<and> queue st' = []"
proof (induction E domain st st' rule: crawl_loop.raw_induct[rotated 1, consumes 1])
  case (1 loop E domain st st')
  show ?case
  proof (cases "queue st = []")
    case True
    with 1(2) have "st' = st" by simp
    with True show ?thesis by (intro exI[of _ 0]) simp
  next
    case False
    with 1(2) have "loop E domain (crawl_step E domain st) = Some st'" by simp
    from 1(1)[OF this] obtain n where "st' = (crawl_step E domain ^^ n) (crawl_step E domain st)"
      and "queue st' = []" by blast
    then show ?thesis by (intro exI[of _ "Suc n"]) (simp add: funpow_swap1)
  qed
qed

text \<open>
  Claim C1. On the two-page site (the seed page \<open>https://example.com/\<close> with
  \<open><script src="/app.js">\<close> and \<open><a href="/about">\<close>, the about page with
  \<open><link rel="modulepreload" as="script" href="/chunk1.js">\<close> and no link) the crawl loop
  returns after requesting exactly two pages, with two visited URLs and the JS set
  \<open>{https://example.com/app.js, https://example.com/chunk1.js}\<close>.
\<close>

theorem two_page_site_crawl:
  "crawl_loop site_env ''example.com'' (crawl_init ''https://example.com/'')
     = Some \<lparr>seen = {''https://example.com/'', ''https://example.com/about''}, queue = [],
         jsSet = {''https://example.com/app.js'', ''https://example.com/chunk1.js''},
         gets = [''https://example.com/'', ''https://example.com/about'']\<rparr>
   \<and> map_option (\<lambda>st. (length (gets st), card (seen st), jsSet st))
         (crawl_loop site_env ''example.com'' (crawl_init ''https://example.com/''))
       = Some (2, 2, {''https://example.com/app.js'', ''https://example.com/chunk1.js''})
   \<and> (\<exists>out. main site_env [''jsCrawler'', ''example.com''] no_files
         = Some (Finished \<lparr>seen = {''https://example.com/'', ''https://example.com/about''},
              queue = [],
              jsSet = {''https://example.com/app.js'', ''https://example.com/chunk1.js''},
              gets = [''https://example.com/'', ''https://example.com/about'']\<rparr> out))"
proof -
  have c: "crawl_loop site_env ''example.com'' (crawl_init ''https://example.com/'')
     = Some \<lparr>seen = {''https://example.com/'', ''https://example.com/about''}, queue = [],
         jsSet = {''https://example.com/app.js'', ''https://example.com/chunk1.js''},
         gets = [''https://example.com/'', ''https://example.com/about'']\<rparr>"
    by code_simp
  have "map_option (\<lambda>st. (length (gets st), card (seen st), jsSet st))
         (crawl_loop site_env ''example.com'' (crawl_init ''https://example.com/''))
       = Some (2, 2, {''https://example.com/app.js'', ''https://example.com/chunk1.js''})"
    unfolding c by simp
  moreover have "\<exists>out. main site_env [''jsCrawler'', ''example.com''] no_files
         = Some (Finished \<lparr>seen = {''https://example.com/'', ''https://example.com/about''},
              queue = [],
              jsSet = {''https://example.com/app.js'', ''https://example.com/chunk1.js''},
              gets = [''https://example.com/'', ''https://example.com/about'']\<rparr> out)"
    by (simp add: main_def c)
  ultimately show ?thesis using c by blast
qed

section \<open>Properties of the report\<close>

lemma report_empty: "report E domain {} w = w"
  by (simp add: report_def)

text \<open>
  Claim C8. When the crawl loop ends with an empty JS set, \<open>main\<close> returns at once: no
  file is created or written, and no JS URL is requested.
\<close>

theorem no_js_no_files:
  assumes "main E args w = Some (Finished st w')" and "jsSet st = {}"
  shows "w' = w \<and> files w' = files w \<and> tested w' = tested w"
proof -
  have "w' = w"
    using assms by (auto simp: main_def Let_def report_empty split: if_splits option.splits)
  then show ?thesis by simp
qed

theorem no_js_no_files_witness:
  "main plain_env [''jsCrawler'', ''example.com''] no_files
     = Some (Finished \<lparr>seen = {''https://example.com/''}, queue = [], jsSet = {},
               gets = [''https://example.com/'']\<rparr> no_files)
   \<and> files no_files = Map.empty \<and> tested no_files = []"
proof -
  have c: "crawl_loop plain_env ''example.com'' (crawl_init ''https://example.com/'')
     = Some \<lparr>seen = {''https://example.com/''}, queue = [], jsSet = {},
               gets = [''https://example.com/'']\<rparr>"
    by code_simp
  have m: "main plain_env [''jsCrawler'', ''example.com''] no_files
     = Some (Finished \<lparr>seen = {''https://example.com/''}, queue = [], jsSet = {},
               gets = [''https://example.com/'']\<rparr> no_files)"
    by (simp add: main_def c report_empty)
  from no_js_no_files[OF m] show ?thesis using m by (simp add: no_files_def)
qed

lemma Fprintln_files:
  "files (Fprintln name line w) f
     = (if f = name then Some ((case files w name of None \<Rightarrow> [] | Some ls \<Rightarrow> ls) @ [line])
        else files w f)"
  by (simp add: Fprintln_def)

lemma Fprintln_tested [simp]: "tested (Fprintln name line w) = tested w"
  by (simp add: Fprintln_def)

lemma fold_Fprintln_other:
  "f \<noteq> name \<Longrightarrow> files (fold (Fprintln name) ls w) f = files w f"
  by (induction ls arbitrary: w) (simp_all add: Fprintln_files)

lemma fold_Fprintln_tested [simp]: "tested (fold (Fprintln name) ls w) = tested w"
  by (induction ls arbitrary: w) simp_all

lemma test_js_files:
  assumes "goodFile \<noteq> badFile" "files w goodFile = Some g" "files w badFile = Some b"
  shows "files (test_js E goodFile badFile js w) goodFile = Some (g @ (if probe_ok E js then [js] else []))
       \<and> files (test_js E goodFile badFile js w) badFile = Some (b @ (if probe_ok E js then [] else [js]))
       \<and> tested (test_js E goodFile badFile js w) = tested w @ [js]"
  using assms
  by (cases "http_Get E js") (auto simp: test_js_def probe_ok_def Fprintln_files Let_def)

lemma fold_test_js_files:
  assumes "goodFile \<noteq> badFile" "files w goodFile = Some g" "files w badFile = Some b"
  shows "files (fold (test_js E goodFile badFile) us w) goodFile = Some (g @ filter (probe_ok E) us)
       \<and> files (fold (test_js E goodFile badFile) us w) badFile
           = Some (b @ filter (\<lambda>u. \<not> probe_ok E u) us)
       \<and> tested (fold (test_js E goodFile badFile) us w) = tested w @ us"
  using assms(2,3)
proof (induction us arbitrary: w g b)
  case Nil
  then show ?case by simp
next
  case (Cons u us)
  from test_js_files[OF assms(1) Cons.prems, of E u]
  have 1: "files (test_js E goodFile badFile u w) goodFile = Some (g @ (if probe_ok E u then [u] else []))"
    and 2: "files (test_js E goodFile badFile u w) badFile = Some (b @ (if probe_ok E u then [] else [u]))"
    and 3: "tested (test_js E goodFile badFile u w) = tested w @ [u]"
    by blast+
  from Cons.IH[OF 1 2] 3 show ?case by simp
qed

lemma report_files:
  assumes "card js \<noteq> 0"
    and "os_Create_ok E (domain @ ''_all_js.txt'')"
    and "os_Create_ok E (domain @ ''_good_js.txt'')"
    and "os_Create_ok E (domain @ ''_bad_js.txt'')"
  shows "files (report E domain js w) (domain @ ''_good_js.txt'')
           = Some (filter (probe_ok E) (range_test E js))
       \<and> files (report E domain js w) (domain @ ''_bad_js.txt'')
           = Some (filter (\<lambda>u. \<not> probe_ok E u) (range_test E js))
       \<and> tested (report E domain js w) = tested w @ range_test E js"
proof -
  let ?a = "domain @ ''_all_js.txt''" and ?g = "domain @ ''_good_js.txt''"
    and ?b = "domain @ ''_bad_js.txt''"
  let ?w3 = "os_Create ?b (os_Create ?g (os_Create ?a w))"
  let ?w4 = "fold (Fprintln ?a) (range_all E js) ?w3"
  have r: "report E domain js w = fold (test_js E ?g ?b) (range_test E js) ?w4"
    using assms by (simp add: report_def Let_def)
  have ne: "?g \<noteq> ?b" "?g \<noteq> ?a" "?b \<noteq> ?a" by simp_all
  have g: "files ?w4 ?g = Some []"
    using ne by (simp add: fold_Fprintln_other os_Create_def)
  have b: "files ?w4 ?b = Some []"
    using ne by (simp add: fold_Fprintln_other os_Create_def)
  have t: "tested ?w4 = tested w" by (simp add: os_Create_def)
  from fold_test_js_files[OF ne(1) g b, of E "range_test E js"] t r
  show ?thesis by simp
qed

text \<open>
  Claim C4. When the test loop runs over a JS set that is not empty (the three files
  were created, and the loop ranges over every URL of the set once), every URL lands in
  exactly one of the good file and the bad file: the two have no URL in common, together
  they hold the set, and their lengths add up to its size. A request that fails or a
  status of 400 or more puts the URL into the bad file, a status below 400 into the
  good file.
\<close>

theorem test_partitions_js_set:
  assumes "distinct (range_test E js)" and "set (range_test E js) = js" and "js \<noteq> {}"
    and "os_Create_ok E (domain @ ''_all_js.txt'')"
    and "os_Create_ok E (domain @ ''_good_js.txt'')"
    and "os_Create_ok E (domain @ ''_bad_js.txt'')"
  shows "\<exists>good bad.
           files (report E domain js w) (domain @ ''_good_js.txt'') = Some good
         \<and> files (report E domain js w) (domain @ ''_bad_js.txt'') = Some bad
         \<and> distinct good \<and> distinct bad
         \<and> set good \<inter> set bad = {} \<and> set good \<union> set bad = js
         \<and> length good + length bad = card js
         \<and> set bad = {u \<in> js. case http_Get E u of None \<Rightarrow> True
                                 | Some resp \<Rightarrow> StatusCode resp \<ge> 400}
         \<and> set good = {u \<in> js. case http_Get E u of None \<Rightarrow> False
                                  | Some resp \<Rightarrow> StatusCode resp < 400}"
proof -
  let ?us = "range_test E js"
  let ?good = "filter (probe_ok E) ?us" and ?bad = "filter (\<lambda>u. \<not> probe_ok E u) ?us"
  have fin: "finite js" using assms(2) by (metis List.finite_set)
  then have c: "card js \<noteq> 0" using assms(3) by simp
  note f = report_files[OF c assms(4,5,6), of w]
  have l: "length ?good + length ?bad = card js"
    using assms(1,2) sum_length_filter_compl[of "probe_ok E" ?us] distinct_card[of ?us] by simp
  have nb: "(\<not> probe_ok E u) = (case http_Get E u of None \<Rightarrow> True
                                 | Some resp \<Rightarrow> StatusCode resp \<ge> 400)" for u
    by (auto simp: probe_ok_def not_less split: option.splits)
  have sb: "set ?bad = {u \<in> js. case http_Get E u of None \<Rightarrow> True
                                 | Some resp \<Rightarrow> StatusCode resp \<ge> 400}"
    using assms(2) nb by auto
  have sg: "set ?good = {u \<in> js. case http_Get E u of None \<Rightarrow> False
                                  | Some resp \<Rightarrow> StatusCode resp < 400}"
    using assms(2) by (auto simp: probe_ok_def)
  have d: "distinct ?good" "distinct ?bad" using assms(1) by simp_all
  have i: "set ?good \<inter> set ?bad = {}" by auto
  have u: "set ?good \<union> set ?bad = js" using assms(2) by auto
  show ?thesis
    apply (rule exI[of _ ?good])
    apply (rule exI[of _ ?bad])
    apply (intro conjI)
    apply (rule f[THEN conjunct1])
    apply (rule f[THEN conjunct2, THEN conjunct1])
    apply (rule d(1))
    apply (rule d(2))
    apply (rule i)
    apply (rule u)
    apply (rule l)
    apply (rule sb)
    apply (rule sg)
    done
qed

theorem test_partitions_js_set_witness:
  "files (report probe_env ''example.com''
            {''https://example.com/a.js'', ''https://example.com/b.js'', ''https://example.com/c.js''}
            no_files) ''example.com_good_js.txt'' = Some [''https://example.com/a.js'']
   \<and> files (report probe_env ''example.com''
            {''https://example.com/a.js'', ''https://example.com/b.js'', ''https://example.com/c.js''}
            no_files) ''example.com_bad_js.txt''
        = Some [''https://example.com/c.js'', ''https://example.com/b.js'']"
proof -
  let ?js = "{''https://example.com/a.js'', ''https://example.com/b.js'', ''https://example.com/c.js''}"
  have r: "range_test probe_env ?js
      = [''https://example.com/c.js'', ''https://example.com/b.js'', ''https://example.com/a.js'']"
    by (simp add: probe_env_def fixed_env_def)
  have d: "distinct (range_test probe_env ?js)" unfolding r by simp
  have s: "set (range_test probe_env ?js) = ?js" unfolding r by auto
  have n: "?js \<noteq> {}" by simp
  have o: "os_Create_ok probe_env name" for name by (simp add: probe_env_def fixed_env_def)
  have p: "probe_ok probe_env ''https://example.com/a.js''"
    "\<not> probe_ok probe_env ''https://example.com/b.js''"
    "\<not> probe_ok probe_env ''https://example.com/c.js''"
    by (simp_all add: probe_ok_def probe_env_def fixed_env_def)
  have c: "card ?js \<noteq> 0" by simp
  have f: "files (report probe_env ''example.com'' ?js no_files) (''example.com'' @ ''_good_js.txt'')
           = Some (filter (probe_ok probe_env) (range_test probe_env ?js))"
     "files (report probe_env ''example.com'' ?js no_files) (''example.com'' @ ''_bad_js.txt'')
           = Some (filter (\<lambda>u. \<not> probe_ok probe_env u) (range_test probe_env ?js))"
    using report_files[OF c o o o, of "''example.com''" no_files] by (rule conjunct1, rule conjunct2[THEN conjunct1])
  have fg: "filter (probe_ok probe_env) (range_test probe_env ?js) = [''https://example.com/a.js'']"
    unfolding r using p by simp
  have fb: "filter (\<lambda>u. \<not> probe_ok probe_env u) (range_test probe_env ?js)
       = [''https://example.com/c.js'', ''https://example.com/b.js'']"
    unfolding r using p by simp
  from test_partitions_js_set[OF d s n o o o, of "''example.com''" no_files]
  show ?thesis
  proof (elim exE conjE)
    fix good bad
    assume "files (report probe_env ''example.com'' ?js no_files) (''example.com'' @ ''_good_js.txt'')
              = Some good"
    then have "good = [''https://example.com/a.js'']"
      unfolding f(1) fg by simp
    show ?thesis
      using f fg fb by simp
  qed
qed

section \<open>Properties of the resolver\<close>





end
